theory Spec2Isabelle
  imports Main
begin

section \<open>The LHE processor: data model\<close>

text \<open>
  The class \<^verbatim>\<open>LHEProcessor\<close> of \<^verbatim>\<open>lheprocessor.py\<close> keeps five fields: the list of
  registered sample file names, two ordered dictionaries (observable name to definition,
  observable name to required flag) and the two merged results, which are \<^verbatim>\<open>None\<close>
  until the first sample has been analysed.

  An \<^verbatim>\<open>OrderedDict\<close> is an association list in insertion order; Python keeps its keys
  unique, which \<open>is_dict\<close> states. Observable definitions (formula strings), cell values
  (floats) and the exceptions of the extraction routine are type parameters \<open>'d\<close>, \<open>'v\<close>
  and \<open>'e\<close>: the merge code never inspects them.
\<close>

type_synonym ('k, 'a) ordered_dict = "('k \<times> 'a) list"

definition is_dict :: "('k, 'a) ordered_dict \<Rightarrow> bool" where
  "is_dict d = distinct (map fst d)"

text \<open>\<^verbatim>\<open>d[k] = v\<close> on an ordered dictionary: an existing key keeps its position and gets
  the new value, a new key is appended at the end.\<close>

fun od_set :: "'k \<Rightarrow> 'a \<Rightarrow> ('k, 'a) ordered_dict \<Rightarrow> ('k, 'a) ordered_dict" where
  "od_set k v [] = [(k, v)]"
| "od_set k v ((k', v') # rest) =
     (if k' = k then (k, v) # rest else (k', v') # od_set k v rest)"

text \<open>
  The weights of a sample are a two-dimensional numpy array. The code reads
  \<^verbatim>\<open>shape[0]\<close> as the number of weights (its error message says so) and appends the
  events of a new sample with \<^verbatim>\<open>np.hstack\<close>, that is along axis 1: axis 0 indexes the
  weight variations, axis 1 the events. The array is kept as its list of axis-0 slices
  together with the size of axis 1 (which the slices alone do not determine when there
  are none).
\<close>

record 'v ndarray2 =
  slices :: "'v list list"
  shape1 :: nat

definition shape0 :: "'v ndarray2 \<Rightarrow> nat" where
  "shape0 a = length (slices a)"

definition wf_array :: "'v ndarray2 \<Rightarrow> bool" where
  "wf_array a = list_all (\<lambda>r. length r = shape1 a) (slices a)"

text \<open>\<^verbatim>\<open>np.hstack([a, b])\<close> on two-dimensional arrays with the same \<^verbatim>\<open>shape[0]\<close>
  (the only way the code calls it, after the check of line 96): slice by slice
  concatenation along axis 1.\<close>

definition hstack2 :: "'v ndarray2 \<Rightarrow> 'v ndarray2 \<Rightarrow> 'v ndarray2" where
  "hstack2 a b = \<lparr>slices = map2 (@) (slices a) (slices b), shape1 = shape1 a + shape1 b\<rparr>"

type_synonym 'v observations = "(string, 'v list) ordered_dict"

record ('d, 'v) lhe_processor =
  lhe_sample_filenames :: "string list"
  observables :: "(string, 'd) ordered_dict"
  observables_required :: "(string, bool) ordered_dict"
  observations :: "'v observations option"
  weights :: "'v ndarray2 option"

text \<open>
  What the code of \<^verbatim>\<open>analyse_lhe_samples\<close> raises itself: the two \<^verbatim>\<open>ValueError\<close>s
  of lines 97 and 101 with the two counts of their message; the failed assertion of
  line 108 with its key; and the errors Python raises when one of the two result fields is
  \<^verbatim>\<open>None\<close> and the other is not (\<^verbatim>\<open>None.shape\<close>, \<^verbatim>\<open>len(None)\<close>) or when a key
  lookup fails. An exception of \<^verbatim>\<open>extract_observables_from_lhe_file\<close> is not caught:
  the call ends with that very exception (\<open>Propagated\<close>).
\<close>

datatype error =
    ValueError_weights nat nat
  | ValueError_observations nat nat
  | AssertionError string
  | AttributeError
  | TypeError
  | KeyError string

datatype 'e raised =
    Propagated 'e
  | Raised error

section \<open>The operations\<close>

definition init :: "('d, 'v) lhe_processor" where
  "init = \<lparr>lhe_sample_filenames = [], observables = [], observables_required = [],
           observations = None, weights = None\<rparr>"

definition add_lhe_sample :: "string \<Rightarrow> ('d, 'v) lhe_processor \<Rightarrow> ('d, 'v) lhe_processor" where
  "add_lhe_sample filename self =
     self\<lparr>lhe_sample_filenames := lhe_sample_filenames self @ [filename]\<rparr>"

definition add_observable ::
  "string \<Rightarrow> 'd \<Rightarrow> bool \<Rightarrow> ('d, 'v) lhe_processor \<Rightarrow> ('d, 'v) lhe_processor" where
  "add_observable name definition required self =
     self\<lparr>observables := od_set name definition (observables self),
          observables_required := od_set name required (observables_required self)\<rparr>"

text \<open>
  \<^verbatim>\<open>extract_observables_from_lhe_file\<close> lives in \<^verbatim>\<open>lheprocessor.tools.lhe_interface\<close>,
  outside this file; it is a parameter of the model. It gets the file name and the two
  registries and either raises or returns the observations and the weights of the sample.
\<close>

type_synonym ('d, 'v, 'e) extractor =
  "string \<Rightarrow> (string, 'd) ordered_dict \<Rightarrow> (string, bool) ordered_dict
     \<Rightarrow> 'e + ('v observations \<times> 'v ndarray2)"

text \<open>
  Lines 107 to 111: the loop over the keys of \<^verbatim>\<open>self.observations\<close>. Each key must be
  in the new sample (the assertion), and its column gets the new column appended. An
  exception leaves the columns already extended as they are, so the loop returns the
  dictionary it has reached together with its outcome.
\<close>

fun merge_observations ::
  "string list \<Rightarrow> 'v observations \<Rightarrow> 'v observations \<Rightarrow> (error + unit) \<times> 'v observations"
where
  "merge_observations [] this_observations cur = (Inr (), cur)"
| "merge_observations (key # keys) this_observations cur =
     (case map_of this_observations key of
        None \<Rightarrow> (Inl (AssertionError key), cur)
      | Some new_col \<Rightarrow>
          (case map_of cur key of
             None \<Rightarrow> (Inl (KeyError key), cur)
           | Some col \<Rightarrow>
               merge_observations keys this_observations (od_set key (col @ new_col) cur)))"

text \<open>Lines 90 to 111: folding one extracted sample into the processor.\<close>

definition merge_sample ::
  "'v observations \<Rightarrow> 'v ndarray2 \<Rightarrow> ('d, 'v) lhe_processor
     \<Rightarrow> (error + unit) \<times> ('d, 'v) lhe_processor" where
  "merge_sample this_observations this_weights self =
     (case (observations self, weights self) of
        (None, None) \<Rightarrow>
          (Inr (), self\<lparr>observations := Some this_observations, weights := Some this_weights\<rparr>)
      | (Some obs, None) \<Rightarrow> (Inl AttributeError, self)
      | (obs_opt, Some w) \<Rightarrow>
          if shape0 w \<noteq> shape0 this_weights
          then (Inl (ValueError_weights (shape0 w) (shape0 this_weights)), self)
          else (case obs_opt of
                  None \<Rightarrow> (Inl TypeError, self)
                | Some obs \<Rightarrow>
                    if length obs \<noteq> length this_observations
                    then (Inl (ValueError_observations (length obs) (length this_observations)),
                          self)
                    else (case merge_observations (map fst obs) this_observations obs of
                            (r, obs') \<Rightarrow>
                              (r, self\<lparr>weights := Some (hstack2 w this_weights),
                                       observations := Some obs'\<rparr>))))"

text \<open>Lines 79 to 111: the loop over the registered file names. The first exception ends
  the loop; the processor stays as the statements before the exception left it.\<close>

fun analyse_loop ::
  "('d, 'v, 'e) extractor \<Rightarrow> string list \<Rightarrow> ('d, 'v) lhe_processor
     \<Rightarrow> ('e raised + unit) \<times> ('d, 'v) lhe_processor" where
  "analyse_loop extract [] self = (Inr (), self)"
| "analyse_loop extract (lhe_file # rest) self =
     (case extract lhe_file (observables self) (observables_required self) of
        Inl e \<Rightarrow> (Inl (Propagated e), self)
      | Inr (this_observations, this_weights) \<Rightarrow>
          (case merge_sample this_observations this_weights self of
             (Inl e, self') \<Rightarrow> (Inl (Raised e), self')
           | (Inr u, self') \<Rightarrow> analyse_loop extract rest self'))"

definition analyse_lhe_samples ::
  "('d, 'v, 'e) extractor \<Rightarrow> ('d, 'v) lhe_processor
     \<Rightarrow> ('e raised + unit) \<times> ('d, 'v) lhe_processor" where
  "analyse_lhe_samples extract self = analyse_loop extract (lhe_sample_filenames self) self"

section \<open>Call sequences\<close>

text \<open>A sequence of \<^verbatim>\<open>add_observable\<close> calls on one processor, in call order.\<close>

fun register ::
  "(string \<times> 'd \<times> bool) list \<Rightarrow> ('d, 'v) lhe_processor \<Rightarrow> ('d, 'v) lhe_processor" where
  "register [] self = self"
| "register ((name, definition, required) # calls) self =
     register calls (add_observable name definition required self)"

text \<open>
  Any sequence of calls of the three public methods. A caller may catch the exception of
  \<^verbatim>\<open>analyse_lhe_samples\<close> and go on, so the processor after such a call is the one the
  call left behind, whether it raised or not.
\<close>

datatype 'd call = Add_lhe_sample string | Add_observable string 'd bool | Analyse_lhe_samples

fun perform ::
  "('d, 'v, 'e) extractor \<Rightarrow> 'd call \<Rightarrow> ('d, 'v) lhe_processor \<Rightarrow> ('d, 'v) lhe_processor" where
  "perform extract (Add_lhe_sample filename) self = add_lhe_sample filename self"
| "perform extract (Add_observable name definition required) self =
     add_observable name definition required self"
| "perform extract Analyse_lhe_samples self = snd (analyse_lhe_samples extract self)"

fun perform_all ::
  "('d, 'v, 'e) extractor \<Rightarrow> 'd call list \<Rightarrow> ('d, 'v) lhe_processor \<Rightarrow> ('d, 'v) lhe_processor" where
  "perform_all extract [] self = self"
| "perform_all extract (c # cs) self = perform_all extract cs (perform extract c self)"

text \<open>The three registration fields of a processor.\<close>

definition registration ::
  "('d, 'v) lhe_processor \<Rightarrow> string list \<times> (string, 'd) ordered_dict \<times> (string, bool) ordered_dict"
where
  "registration self = (lhe_sample_filenames self, observables self, observables_required self)"

section \<open>Notions used by the properties\<close>

text \<open>The column of an observable in a table of observations (empty when the table has no
  such key), and a table with the columns of a second table appended key by key.\<close>

definition column :: "'v observations \<Rightarrow> string \<Rightarrow> 'v list" where
  "column obs k = (case map_of obs k of Some c \<Rightarrow> c | None \<Rightarrow> [])"

definition append_columns :: "'v observations \<Rightarrow> 'v observations \<Rightarrow> 'v observations" where
  "append_columns cur this = map (\<lambda>(k, c). (k, c @ column this k)) cur"

text \<open>
  The exceptions raised before the merge of the failing sample has written anything: those
  of the extraction routine and the two \<^verbatim>\<open>ValueError\<close>s of the count checks.
\<close>

definition raised_before_merging :: "'e raised \<Rightarrow> bool" where
  "raised_before_merging err =
     (case err of
        Propagated e \<Rightarrow> True
      | Raised (ValueError_weights a b) \<Rightarrow> True
      | Raised (ValueError_observations a b) \<Rightarrow> True
      | Raised other \<Rightarrow> False)"

section \<open>Example files\<close>

text \<open>
  An extraction routine for concrete runs: a fixed table of file contents, with the two
  failures of the event-record reader (a file with malformed content, a file that does not
  exist). Weights have one slice per weight variation.
\<close>

datatype parser_error = FormatError | IOError

definition example_files :: "(string \<times> (parser_error + int observations \<times> int ndarray2)) list" where
  "example_files =
     [(''a.lhe'', Inr ([(''e'', [1, 2]), (''pt'', [3, 4])], \<lparr>slices = [[10, 20]], shape1 = 2\<rparr>)),
      (''b.lhe'', Inr ([(''pt'', [6]), (''e'', [5])], \<lparr>slices = [[30]], shape1 = 1\<rparr>)),
      (''two_weights.lhe'', Inr ([(''e'', [7]), (''pt'', [8])], \<lparr>slices = [[40], [50]], shape1 = 1\<rparr>)),
      (''one_key.lhe'', Inr ([(''e'', [9])], \<lparr>slices = [[60]], shape1 = 1\<rparr>)),
      (''other_key.lhe'', Inr ([(''e'', [11]), (''eta'', [12])], \<lparr>slices = [[70]], shape1 = 1\<rparr>)),
      (''broken.lhe'', Inl FormatError)]"

definition example_extractor :: "(string, int, parser_error) extractor" where
  "example_extractor lhe_file obs req =
     (case map_of example_files lhe_file of None \<Rightarrow> Inl IOError | Some r \<Rightarrow> r)"

definition example_processor :: "string list \<Rightarrow> (string, int) lhe_processor" where
  "example_processor files =
     fold add_lhe_sample files
       (add_observable ''pt'' ''p[1].pt'' False (add_observable ''e'' ''p[0].e'' True init))"

section \<open>Invariant and expected result of a merge\<close>

text \<open>
  The shape invariant of a pair of observations and weights: the array is rectangular and
  every column has as many entries as the array has events (the size of axis 1). A
  processor satisfies it when it holds no result yet or holds a dictionary and an array
  that satisfy it.
\<close>

definition shape_invariant :: "'v observations \<Rightarrow> 'v ndarray2 \<Rightarrow> bool" where
  "shape_invariant obs w = (wf_array w \<and> list_all (\<lambda>(k, col). length col = shape1 w) obs)"

definition dataset_invariant :: "('d, 'v) lhe_processor \<Rightarrow> bool" where
  "dataset_invariant self =
     (case (observations self, weights self) of
        (None, None) \<Rightarrow> True
      | (Some obs, Some w) \<Rightarrow> is_dict obs \<and> shape_invariant obs w
      | (Some obs, None) \<Rightarrow> False
      | (None, Some w) \<Rightarrow> False)"

text \<open>
  What the extraction routine returns for one file under the registries of a processor
  (an empty table and an empty array when it raises), and the concatenation, in the order
  of a list of file names, of the columns of one observable, of the slices of one weight
  variation, and the total number of events.
\<close>

definition sample_observations ::
  "('d, 'v, 'e) extractor \<Rightarrow> ('d, 'v) lhe_processor \<Rightarrow> string \<Rightarrow> 'v observations" where
  "sample_observations extract self lhe_file =
     (case extract lhe_file (observables self) (observables_required self) of
        Inl e \<Rightarrow> []
      | Inr (this_observations, this_weights) \<Rightarrow> this_observations)"

definition sample_weights ::
  "('d, 'v, 'e) extractor \<Rightarrow> ('d, 'v) lhe_processor \<Rightarrow> string \<Rightarrow> 'v ndarray2" where
  "sample_weights extract self lhe_file =
     (case extract lhe_file (observables self) (observables_required self) of
        Inl e \<Rightarrow> \<lparr>slices = [], shape1 = 0\<rparr>
      | Inr (this_observations, this_weights) \<Rightarrow> this_weights)"

definition columns_in_order ::
  "('d, 'v, 'e) extractor \<Rightarrow> ('d, 'v) lhe_processor \<Rightarrow> string list \<Rightarrow> string \<Rightarrow> 'v list" where
  "columns_in_order extract self files k =
     concat (map (\<lambda>f. column (sample_observations extract self f) k) files)"

definition weights_in_order ::
  "('d, 'v, 'e) extractor \<Rightarrow> ('d, 'v) lhe_processor \<Rightarrow> string list \<Rightarrow> nat \<Rightarrow> 'v list" where
  "weights_in_order extract self files i =
     concat (map (\<lambda>f. slices (sample_weights extract self f) ! i) files)"

definition events_in_order ::
  "('d, 'v, 'e) extractor \<Rightarrow> ('d, 'v) lhe_processor \<Rightarrow> string list \<Rightarrow> nat" where
  "events_in_order extract self files =
     sum_list (map (\<lambda>f. shape1 (sample_weights extract self f)) files)"

section \<open>Ordered dictionaries\<close>

lemma map_of_od_set: "map_of (od_set k v d) = (map_of d)(k \<mapsto> v)"
  by (induction d) (auto simp: fun_eq_iff)

lemma keys_od_set:
  "map fst (od_set k v d) = (if k \<in> fst ` set d then map fst d else map fst d @ [k])"
  by (induction d) (force+)

lemma is_dict_od_set: "is_dict d \<Longrightarrow> is_dict (od_set k v d)"
  by (simp add: is_dict_def keys_od_set)

lemma keys_od_set_cong:
  assumes "map fst d = map fst d'"
  shows "map fst (od_set k v d) = map fst (od_set k v' d')"
proof -
  from assms have "fst ` set d = fst ` set d'" by (metis set_map)
  with assms show ?thesis by (simp add: keys_od_set)
qed

lemma dict_one_entry:
  "is_dict d \<Longrightarrow> map_of d k = Some v \<Longrightarrow> filter (\<lambda>p. fst p = k) d = [(k, v)]"
proof (induction d)
  case Nil
  then show ?case by simp
next
  case (Cons p d)
  obtain k' v' where p: "p = (k', v')" by (cases p)
  show ?case
  proof (cases "k' = k")
    case True
    with Cons.prems p have "k \<notin> fst ` set d" "v' = v" by (auto simp: is_dict_def)
    then have "filter (\<lambda>p. fst p = k) d = []" by (auto simp: filter_empty_conv)
    with True p \<open>v' = v\<close> show ?thesis by simp
  next
    case False
    with Cons p show ?thesis by (simp add: is_dict_def)
  qed
qed

section \<open>Registering observables\<close>

lemma register_observables:
  "map_of (observables (register calls self)) =
     map_of (observables self) ++ map_of (rev (map (\<lambda>(n, d, r). (n, d)) calls))"
  by (induction calls arbitrary: self)
     (auto simp: add_observable_def map_of_od_set fun_eq_iff map_add_def split: option.splits)

lemma register_required:
  "map_of (observables_required (register calls self)) =
     map_of (observables_required self) ++ map_of (rev (map (\<lambda>(n, d, r). (n, r)) calls))"
  by (induction calls arbitrary: self)
     (auto simp: add_observable_def map_of_od_set fun_eq_iff map_add_def split: option.splits)

lemma register_is_dict:
  "is_dict (observables self) \<Longrightarrow> is_dict (observables_required self) \<Longrightarrow>
   is_dict (observables (register calls self)) \<and>
   is_dict (observables_required (register calls self))"
  by (induction calls arbitrary: self) (auto simp: add_observable_def is_dict_od_set)

text \<open>
  Claim C8. Take any sequence of \<^verbatim>\<open>add_observable\<close> calls on a new processor and a call
  in it that is the last one for its name. Then the registry holds exactly one entry for
  that name and it carries the definition of that last call, the required-flag registry
  holds exactly one entry for it with the flag of that last call, and both registries have
  unique keys: earlier definitions and flags of the name are overwritten.
\<close>

theorem add_observable_last_write_wins:
  fixes self :: "('d, 'v) lhe_processor"
  assumes "calls = before @ (name, definition, required) # after"
    and "name \<notin> set (map fst after)"
    and "self = register calls init"
  shows "filter (\<lambda>p. fst p = name) (observables self) = [(name, definition)]
       \<and> filter (\<lambda>p. fst p = name) (observables_required self) = [(name, required)]
       \<and> is_dict (observables self) \<and> is_dict (observables_required self)"
proof -
  have none: "map_of (rev (map (\<lambda>(n, d, r). (n, d)) after)) name = None"
             "map_of (rev (map (\<lambda>(n, d, r). (n, r)) after)) name = None"
    using assms(2) by (auto simp: map_of_eq_None_iff image_iff)
  have d: "is_dict (observables self)" "is_dict (observables_required self)"
    using register_is_dict [of "init :: ('d, 'v) lhe_processor" calls]
    by (simp_all add: assms(3) init_def is_dict_def)
  have "map_of (observables self) name = Some definition"
    using none(1) by (simp add: assms(1,3) register_observables init_def map_add_def)
  moreover have "map_of (observables_required self) name = Some required"
    using none(2) by (simp add: assms(1,3) register_required init_def map_add_def)
  ultimately show ?thesis using d by (simp add: dict_one_entry)
qed

theorem add_observable_last_write_wins_witness:
  "filter (\<lambda>p. fst p = ''pt'')
      (observables (register [(''pt'', ''a'', False), (''e'', ''c'', True), (''pt'', ''b'', True)]
         (init :: (string, int) lhe_processor))) = [(''pt'', ''b'')]
   \<and> filter (\<lambda>p. fst p = ''pt'')
      (observables_required
         (register [(''pt'', ''a'', False), (''e'', ''c'', True), (''pt'', ''b'', True)]
         (init :: (string, int) lhe_processor))) = [(''pt'', True)]"
  using add_observable_last_write_wins
    [of "[(''pt'', ''a'', False), (''e'', ''c'', True), (''pt'', ''b'', True)]"
        "[(''pt'', ''a'', False), (''e'', ''c'', True)]" "''pt''" "''b''" True "[]"
        "register [(''pt'', ''a'', False), (''e'', ''c'', True), (''pt'', ''b'', True)]
           (init :: (string, int) lhe_processor)"]
  by simp

section \<open>The registration is not touched by the analysis\<close>

lemma merge_sample_registration:
  "registration (snd (merge_sample this_observations this_weights self)) = registration self"
  by (simp add: merge_sample_def registration_def split: option.splits prod.splits)

lemma analyse_loop_registration:
  "registration (snd (analyse_loop extract files self)) = registration self"
proof (induction files arbitrary: self)
  case Nil
  then show ?case by simp
next
  case (Cons f files)
  show ?case
  proof (cases "extract f (observables self) (observables_required self)")
    case (Inl e)
    then show ?thesis by simp
  next
    case (Inr d)
    obtain o' w' where d: "d = (o', w')" by (cases d)
    obtain r self' where m: "merge_sample o' w' self = (r, self')"
      by (cases "merge_sample o' w' self")
    have reg: "registration self' = registration self"
      using merge_sample_registration [of o' w' self] m by simp
    show ?thesis
    proof (cases r)
      case (Inl e)
      with Inr d m reg show ?thesis by simp
    next
      case (Inr u)
      with \<open>extract f _ _ = Inr d\<close> d m reg Cons.IH [of self'] show ?thesis by simp
    qed
  qed
qed

lemma perform_same_keys:
  assumes "map fst (observables self) = map fst (observables_required self)"
  shows "map fst (observables (perform extract c self)) =
         map fst (observables_required (perform extract c self))"
proof (cases c)
  case (Add_lhe_sample f)
  with assms show ?thesis by (simp add: add_lhe_sample_def)
next
  case (Add_observable n d r)
  with assms show ?thesis by (simp add: add_observable_def keys_od_set_cong)
next
  case Analyse_lhe_samples
  have "registration (snd (analyse_lhe_samples extract self)) = registration self"
    by (simp add: analyse_lhe_samples_def analyse_loop_registration)
  with assms Analyse_lhe_samples show ?thesis by (simp add: registration_def)
qed

lemma perform_all_same_keys:
  "map fst (observables self) = map fst (observables_required self) \<Longrightarrow>
   map fst (observables (perform_all extract cs self)) =
   map fst (observables_required (perform_all extract cs self))"
  by (induction cs arbitrary: self) (simp_all add: perform_same_keys)

text \<open>
  Claim C10. After any sequence of \<^verbatim>\<open>add_lhe_sample\<close>, \<^verbatim>\<open>add_observable\<close> and
  \<^verbatim>\<open>analyse_lhe_samples\<close> calls on a new processor, the two registries list the same keys
  in the same order; and a call of \<^verbatim>\<open>analyse_lhe_samples\<close> on any processor, raising or
  not, leaves the file name list and both registries as they were.
\<close>

theorem registries_aligned_and_untouched_by_analysis:
  "map fst (observables (perform_all extract calls init)) =
     map fst (observables_required (perform_all extract calls init))
   \<and> lhe_sample_filenames (snd (analyse_lhe_samples extract self)) = lhe_sample_filenames self
   \<and> observables (snd (analyse_lhe_samples extract self)) = observables self
   \<and> observables_required (snd (analyse_lhe_samples extract self)) = observables_required self"
proof -
  have "registration (snd (analyse_lhe_samples extract self)) = registration self"
    by (simp add: analyse_lhe_samples_def analyse_loop_registration)
  moreover have "map fst (observables (perform_all extract calls init)) =
     map fst (observables_required (perform_all extract calls init))"
    by (rule perform_all_same_keys) (simp add: init_def)
  ultimately show ?thesis by (simp add: registration_def)
qed

section \<open>The loop over the keys\<close>

lemma od_set_as_map:
  "is_dict d \<Longrightarrow> map_of d k = Some c \<Longrightarrow>
   od_set k v d = map (\<lambda>(k', c'). if k' = k then (k', v) else (k', c')) d"
proof (induction d)
  case Nil
  then show ?case by simp
next
  case (Cons p d)
  obtain k' c' where p: "p = (k', c')" by (cases p)
  show ?case
  proof (cases "k' = k")
    case True
    from Cons.prems(1) p True have "k \<notin> fst ` set d" by (simp add: is_dict_def)
    then have "map (\<lambda>(k', c'). if k' = k then (k', v) else (k', c')) d = d"
      by (intro map_idI) (auto simp: image_iff)
    with True p show ?thesis by simp
  next
    case False
    with Cons p show ?thesis by (simp add: is_dict_def)
  qed
qed

lemma map_of_in_keys: "k \<in> fst ` set d \<Longrightarrow> \<exists>c. map_of d k = Some c"
  by (cases "map_of d k") (auto simp: map_of_eq_None_iff)

lemma keys_od_set_present: "k \<in> fst ` set d \<Longrightarrow> map fst (od_set k v d) = map fst d"
  by (simp add: keys_od_set)

lemma merge_observations_partial:
  assumes "is_dict cur" "distinct keys" "set keys \<subseteq> fst ` set cur"
    and "\<forall>k\<in>set keys. map_of this k \<noteq> None"
  shows "merge_observations keys this cur =
           (Inr (), map (\<lambda>(k, c). if k \<in> set keys then (k, c @ column this k) else (k, c)) cur)"
  using assms
proof (induction keys arbitrary: cur)
  case Nil
  then show ?case by simp
next
  case (Cons key keys)
  from Cons.prems(4) obtain n where n: "map_of this key = Some n" by auto
  from Cons.prems(3) obtain c where c: "map_of cur key = Some c"
    using map_of_in_keys [of key cur] by auto
  let ?cur1 = "od_set key (c @ n) cur"
  have key_in: "key \<in> fst ` set cur" using Cons.prems(3) by simp
  have cur1: "?cur1 = map (\<lambda>(k', c'). if k' = key then (k', c @ n) else (k', c')) cur"
    using Cons.prems(1) c by (rule od_set_as_map)
  have d1: "is_dict ?cur1" using Cons.prems(1) by (rule is_dict_od_set)
  have k1: "set keys \<subseteq> fst ` set ?cur1"
  proof -
    have "map fst ?cur1 = map fst cur" using key_in by (rule keys_od_set_present)
    then have "fst ` set ?cur1 = fst ` set cur" by (metis set_map)
    with Cons.prems(3) show ?thesis by simp
  qed
  have ih: "merge_observations keys this ?cur1 =
     (Inr (), map (\<lambda>(k, c). if k \<in> set keys then (k, c @ column this k) else (k, c)) ?cur1)"
    using Cons.IH [OF d1 _ k1] Cons.prems(2,4) by simp
  have notin: "key \<notin> set keys" using Cons.prems(2) by simp
  have col: "column this key = n" using n by (simp add: column_def)
  have cval: "\<And>c'. (key, c') \<in> set cur \<Longrightarrow> c' = c"
    using c Cons.prems(1) by (simp add: is_dict_def)
  have "map (\<lambda>(k, c). if k \<in> set keys then (k, c @ column this k) else (k, c)) ?cur1 =
        map (\<lambda>(k, c). if k \<in> set (key # keys) then (k, c @ column this k) else (k, c)) cur"
    unfolding cur1 map_map using notin col cval by (intro map_cong) auto
  with ih n c show ?case by simp
qed

lemma merge_observations_ok:
  assumes "is_dict cur" and "\<forall>k\<in>fst ` set cur. map_of this k \<noteq> None"
  shows "merge_observations (map fst cur) this cur = (Inr (), append_columns cur this)"
proof -
  have "merge_observations (map fst cur) this cur =
     (Inr (), map (\<lambda>(k, c). if k \<in> set (map fst cur) then (k, c @ column this k) else (k, c)) cur)"
    using assms by (intro merge_observations_partial) (auto simp: is_dict_def)
  moreover have "map (\<lambda>(k, c). if k \<in> set (map fst cur) then (k, c @ column this k) else (k, c)) cur
      = append_columns cur this"
    unfolding append_columns_def by (intro map_cong) force+
  ultimately show ?thesis by simp
qed

lemma merge_observations_missing:
  assumes "set keys \<subseteq> fst ` set cur" and "\<exists>k\<in>set keys. map_of this k = None"
  shows "\<exists>k cur'. merge_observations keys this cur = (Inl (AssertionError k), cur')
            \<and> k \<in> set keys \<and> map_of this k = None"
  using assms
proof (induction keys arbitrary: cur)
  case Nil
  then show ?case by simp
next
  case (Cons key keys)
  show ?case
  proof (cases "map_of this key")
    case None
    then show ?thesis by auto
  next
    case (Some n)
    from Cons.prems(1) obtain c where c: "map_of cur key = Some c"
      using map_of_in_keys [of key cur] by auto
    let ?cur1 = "od_set key (c @ n) cur"
    have "map fst ?cur1 = map fst cur" using Cons.prems(1) by (simp add: keys_od_set_present)
    then have "fst ` set ?cur1 = fst ` set cur" by (metis set_map)
    with Cons.prems(1) have k1: "set keys \<subseteq> fst ` set ?cur1" by simp
    from Cons.prems(2) Some have "\<exists>k\<in>set keys. map_of this k = None" by auto
    from Cons.IH [OF k1 this] Some c show ?thesis by auto
  qed
qed

lemma merge_observations_success_present:
  "merge_observations keys this cur = (Inr (), cur') \<Longrightarrow> \<forall>k\<in>set keys. map_of this k \<noteq> None"
  by (induction keys arbitrary: cur) (auto split: option.splits)

section \<open>The loop over the files\<close>

lemma analyse_loop_observables:
  assumes "analyse_loop extract files self = (r, self')"
  shows "observables self' = observables self"
    and "observables_required self' = observables_required self"
    and "lhe_sample_filenames self' = lhe_sample_filenames self"
  using analyse_loop_registration [of "extract" files self] assms
  by (simp_all add: registration_def)

lemma analyse_loop_append:
  "analyse_loop extract before self = (Inr (), merged) \<Longrightarrow>
   analyse_loop extract (before @ rest) self = analyse_loop extract rest merged"
proof (induction before arbitrary: self)
  case Nil
  then show ?case by simp
next
  case (Cons f before)
  then show ?case
    by (auto split: sum.splits prod.splits)
qed

lemma analyse_loop_at:
  assumes "analyse_loop extract before self = (Inr (), merged)"
  shows "analyse_loop extract (before @ lhe_file # after) self =
     (case extract lhe_file (observables self) (observables_required self) of
        Inl e \<Rightarrow> (Inl (Propagated e), merged)
      | Inr (this_observations, this_weights) \<Rightarrow>
          (case merge_sample this_observations this_weights merged of
             (Inl e, self') \<Rightarrow> (Inl (Raised e), self')
           | (Inr u, self') \<Rightarrow> analyse_loop extract after self'))"
  using analyse_loop_append [OF assms, of "lhe_file # after"] analyse_loop_observables(1,2) [OF assms]
  by simp

lemma merge_sample_weights_mismatch:
  "weights self = Some w \<Longrightarrow> shape0 w \<noteq> shape0 this_weights \<Longrightarrow>
   merge_sample this_observations this_weights self =
     (Inl (ValueError_weights (shape0 w) (shape0 this_weights)), self)"
  by (simp add: merge_sample_def split: option.splits)

lemma merge_sample_keys_mismatch:
  "observations self = Some obs \<Longrightarrow> weights self = Some w \<Longrightarrow> shape0 w = shape0 this_weights \<Longrightarrow>
   length obs \<noteq> length this_observations \<Longrightarrow>
   merge_sample this_observations this_weights self =
     (Inl (ValueError_observations (length obs) (length this_observations)), self)"
  by (simp add: merge_sample_def)

lemma merge_sample_missing_key:
  assumes "observations self = Some obs" "weights self = Some w" "shape0 w = shape0 this_weights"
    "length obs = length this_observations" "\<exists>k\<in>fst ` set obs. k \<notin> fst ` set this_observations"
  shows "\<exists>k self'. merge_sample this_observations this_weights self = (Inl (AssertionError k), self')
           \<and> k \<in> fst ` set obs \<and> k \<notin> fst ` set this_observations"
proof -
  from assms(5) have "\<exists>k\<in>set (map fst obs). map_of this_observations k = None"
    by (auto simp: map_of_eq_None_iff)
  from merge_observations_missing [OF _ this, of obs]
  obtain k cur' where "merge_observations (map fst obs) this_observations obs = (Inl (AssertionError k), cur')"
    "k \<in> set (map fst obs)" "map_of this_observations k = None" by auto
  with assms(1-4) show ?thesis
    by (auto simp: merge_sample_def map_of_eq_None_iff)
qed

text \<open>
  Claim C1. Let the samples registered before some file have been merged without error,
  leaving observations and weights in the processor, and let the extraction of that file
  succeed with a weights array whose number of weight variations (\<^verbatim>\<open>shape[0]\<close>, the axis
  the code compares) differs from that of the merged weights. Then
  \<^verbatim>\<open>analyse_lhe_samples\<close> raises the \<^verbatim>\<open>ValueError\<close> of line 97, which carries the two
  counts, the merged one first.
\<close>

theorem weight_count_mismatch_raises:
  assumes "lhe_sample_filenames self = before @ lhe_file # after"
    and "analyse_loop extract before self = (Inr (), merged)"
    and "observations merged = Some obs" and "weights merged = Some w"
    and "extract lhe_file (observables self) (observables_required self) =
           Inr (this_observations, this_weights)"
    and "shape0 this_weights \<noteq> shape0 w"
  shows "fst (analyse_lhe_samples extract self) =
           Inl (Raised (ValueError_weights (shape0 w) (shape0 this_weights)))"
proof -
  have "merge_sample this_observations this_weights merged =
     (Inl (ValueError_weights (shape0 w) (shape0 this_weights)), merged)"
    using assms(4,6) by (intro merge_sample_weights_mismatch) auto
  then show ?thesis
    by (simp add: analyse_lhe_samples_def assms(1,5) analyse_loop_at [OF assms(2)])
qed

theorem weight_count_mismatch_raises_witness:
  "fst (analyse_lhe_samples example_extractor (example_processor [''a.lhe'', ''two_weights.lhe''])) =
     Inl (Raised (ValueError_weights 1 2))"
proof -
  let ?self = "example_processor [''a.lhe'', ''two_weights.lhe'']"
  let ?obs = "[(''e'', [1, 2]), (''pt'', [3, 4])] :: int observations"
  let ?w = "\<lparr>slices = [[10, 20]], shape1 = 2\<rparr> :: int ndarray2"
  let ?merged = "?self\<lparr>observations := Some ?obs, weights := Some ?w\<rparr>"
  have 1: "lhe_sample_filenames ?self = [''a.lhe''] @ ''two_weights.lhe'' # []" by code_simp
  have 2: "analyse_loop example_extractor [''a.lhe''] ?self = (Inr (), ?merged)" by code_simp
  have 3: "observations ?merged = Some ?obs" by simp
  have 4: "weights ?merged = Some ?w" by simp
  have 5: "example_extractor ''two_weights.lhe'' (observables ?self) (observables_required ?self) =
     Inr ([(''e'', [7]), (''pt'', [8])], \<lparr>slices = [[40], [50]], shape1 = 1\<rparr>)" by code_simp
  have 6: "shape0 \<lparr>slices = [[40], [50]], shape1 = 1\<rparr> \<noteq> shape0 ?w" by (simp add: shape0_def)
  show ?thesis using weight_count_mismatch_raises [OF 1 2 3 4 5 6] by (simp add: shape0_def)
qed

text \<open>
  Claim C7. When the samples before some file have been merged without error and the
  extraction routine raises on that file, \<^verbatim>\<open>analyse_lhe_samples\<close> ends with that very
  exception: the loop has no handler, so the exception is neither caught nor changed, and
  no later file is read.
\<close>

theorem parser_errors_propagate_unchanged:
  assumes "lhe_sample_filenames self = before @ lhe_file # after"
    and "analyse_loop extract before self = (Inr (), merged)"
    and "extract lhe_file (observables self) (observables_required self) = Inl e"
  shows "fst (analyse_lhe_samples extract self) = Inl (Propagated e)"
  by (simp add: analyse_lhe_samples_def assms(1,3) analyse_loop_at [OF assms(2)])

theorem parser_errors_propagate_unchanged_witness:
  "fst (analyse_lhe_samples example_extractor (example_processor [''a.lhe'', ''broken.lhe'', ''b.lhe''])) =
     Inl (Propagated FormatError)"
proof -
  let ?self = "example_processor [''a.lhe'', ''broken.lhe'', ''b.lhe'']"
  let ?merged = "?self\<lparr>observations := Some [(''e'', [1, 2]), (''pt'', [3, 4])],
                         weights := Some \<lparr>slices = [[10, 20]], shape1 = 2\<rparr>\<rparr>"
  have 1: "lhe_sample_filenames ?self = [''a.lhe''] @ ''broken.lhe'' # [''b.lhe'']" by code_simp
  have 2: "analyse_loop example_extractor [''a.lhe''] ?self = (Inr (), ?merged)" by code_simp
  have 3: "example_extractor ''broken.lhe'' (observables ?self) (observables_required ?self) =
     Inl FormatError" by code_simp
  show ?thesis using parser_errors_propagate_unchanged [OF 1 2 3] .
qed

lemma merge_observations_errors:
  "merge_observations keys this cur = (Inl e, cur') \<Longrightarrow>
   (\<exists>k. e = AssertionError k) \<or> (\<exists>k. e = KeyError k)"
  by (induction keys arbitrary: cur) (auto split: option.splits)

lemma merge_sample_raised_before_merging:
  "merge_sample this_observations this_weights self = (Inl e, self') \<Longrightarrow>
   raised_before_merging (Raised e :: 'e raised) \<Longrightarrow> self' = self"
  by (auto simp: merge_sample_def raised_before_merging_def
           split: option.splits if_splits prod.splits error.splits
           dest: merge_observations_errors)

lemma analyse_loop_abort:
  "analyse_loop extract files self = (Inl err, self') \<Longrightarrow> raised_before_merging err \<Longrightarrow>
   \<exists>before lhe_file after.
      files = before @ lhe_file # after \<and> analyse_loop extract before self = (Inr (), self')
    \<and> analyse_loop extract [lhe_file] self' = (Inl err, self')"
proof (induction files arbitrary: self)
  case Nil
  then show ?case by simp
next
  case (Cons f files)
  show ?case
  proof (cases "extract f (observables self) (observables_required self)")
    case (Inl e)
    with Cons.prems(1) have "self' = self" "err = Propagated e" by simp_all
    with Inl have "f # files = [] @ f # files \<and> analyse_loop extract [] self = (Inr (), self')
        \<and> analyse_loop extract [f] self' = (Inl err, self')"
      by simp
    then show ?thesis by blast
  next
    case (Inr d)
    obtain o' w' where d: "d = (o', w')" by (cases d)
    obtain r self1 where m: "merge_sample o' w' self = (r, self1)"
      by (cases "merge_sample o' w' self")
    show ?thesis
    proof (cases r)
      case (Inl e)
      with Inr d m Cons.prems(1) have e: "err = Raised e" "self' = self1" by simp_all
      with Cons.prems(2) m Inl have same: "self1 = self"
        using merge_sample_raised_before_merging [of o' w' self e self1] by simp
      with e Inl m \<open>extract f _ _ = Inr d\<close> d
      have "f # files = [] @ f # files \<and> analyse_loop extract [] self = (Inr (), self')
          \<and> analyse_loop extract [f] self' = (Inl err, self')"
        by simp
      then show ?thesis by blast
    next
      case (Inr u)
      with \<open>extract f _ _ = Inr d\<close> d m Cons.prems(1)
      have rest: "analyse_loop extract files self1 = (Inl err, self')" by simp
      from Cons.IH [OF rest Cons.prems(2)] obtain before lhe_file after where
        b: "files = before @ lhe_file # after" "analyse_loop extract before self1 = (Inr (), self')"
           "analyse_loop extract [lhe_file] self' = (Inl err, self')"
        by blast
      from \<open>extract f _ _ = Inr d\<close> d m Inr b(2)
      have "analyse_loop extract (f # before) self = (Inr (), self')" by simp
      moreover from b(1) have "f # files = (f # before) @ lhe_file # after" by simp
      ultimately show ?thesis using b(3) by blast
    qed
  qed
qed

text \<open>
  Claim C2, as the code has it. Whenever \<^verbatim>\<open>analyse_lhe_samples\<close> ends with an exception
  of the extraction routine or with one of the two \<^verbatim>\<open>ValueError\<close>s, the exception reaches
  the caller and the processor is left exactly as the samples before the failing file
  merged it: the registered list splits into the files before the failing one, the failing
  file and the rest; the files before it merge without an exception into the processor the
  call leaves behind; and the failing file, analysed on that processor, raises the
  exception of the call and changes nothing. What was accumulated is kept, not discarded,
  and nothing of the failing sample is in it.
\<close>

theorem abort_keeps_merged_so_far:
  assumes "analyse_lhe_samples extract self = (Inl err, self')"
    and "raised_before_merging err"
  shows "\<exists>before lhe_file after.
           lhe_sample_filenames self = before @ lhe_file # after
         \<and> analyse_loop extract before self = (Inr (), self')
         \<and> analyse_loop extract [lhe_file] self' = (Inl err, self')"
  using assms analyse_loop_abort [of "extract" "lhe_sample_filenames self" self err self']
  by (simp add: analyse_lhe_samples_def)

theorem abort_keeps_merged_so_far_witness:
  "\<exists>before lhe_file after.
      lhe_sample_filenames (example_processor [''a.lhe'', ''b.lhe'', ''one_key.lhe''])
        = before @ lhe_file # after
    \<and> analyse_loop example_extractor before (example_processor [''a.lhe'', ''b.lhe'', ''one_key.lhe''])
        = (Inr (), (example_processor [''a.lhe'', ''b.lhe'', ''one_key.lhe''])
            \<lparr>observations := Some [(''e'', [1, 2, 5]), (''pt'', [3, 4, 6])],
             weights := Some \<lparr>slices = [[10, 20, 30]], shape1 = 3\<rparr>\<rparr>)
    \<and> analyse_loop example_extractor [lhe_file]
          ((example_processor [''a.lhe'', ''b.lhe'', ''one_key.lhe''])
            \<lparr>observations := Some [(''e'', [1, 2, 5]), (''pt'', [3, 4, 6])],
             weights := Some \<lparr>slices = [[10, 20, 30]], shape1 = 3\<rparr>\<rparr>)
        = (Inl (Raised (ValueError_observations 2 1)),
           (example_processor [''a.lhe'', ''b.lhe'', ''one_key.lhe''])
            \<lparr>observations := Some [(''e'', [1, 2, 5]), (''pt'', [3, 4, 6])],
             weights := Some \<lparr>slices = [[10, 20, 30]], shape1 = 3\<rparr>\<rparr>)"
proof -
  let ?self = "example_processor [''a.lhe'', ''b.lhe'', ''one_key.lhe'']"
  let ?self' = "?self\<lparr>observations := Some [(''e'', [1, 2, 5]), (''pt'', [3, 4, 6])],
             weights := Some \<lparr>slices = [[10, 20, 30]], shape1 = 3\<rparr>\<rparr>"
  have 1: "analyse_lhe_samples example_extractor ?self =
             (Inl (Raised (ValueError_observations 2 1)), ?self')" by code_simp
  have 2: "raised_before_merging (Raised (ValueError_observations 2 1) :: parser_error raised)"
    by (simp add: raised_before_merging_def)
  show ?thesis using abort_keeps_merged_so_far [OF 1 2] .
qed

text \<open>
  Claim C2 as stated fails: after the \<^verbatim>\<open>ValueError\<close> on the second of two samples the
  processor still holds the observations and weights of the first sample.
\<close>

theorem abort_discards_merged_counterexample:
  "analyse_lhe_samples example_extractor (example_processor [''a.lhe'', ''two_weights.lhe'']) =
     (Inl (Raised (ValueError_weights 1 2)),
      (example_processor [''a.lhe'', ''two_weights.lhe''])
        \<lparr>observations := Some [(''e'', [1, 2]), (''pt'', [3, 4])],
         weights := Some \<lparr>slices = [[10, 20]], shape1 = 2\<rparr>\<rparr>)"
  by code_simp

text \<open>
  A sample with as many keys as the merged table, one of them different: the weights and
  the columns before the missing key have been extended when the assertion fails.
\<close>

lemma missing_key_example:
  "analyse_lhe_samples example_extractor (example_processor [''a.lhe'', ''other_key.lhe'']) =
     (Inl (Raised (AssertionError ''pt'')),
      (example_processor [''a.lhe'', ''other_key.lhe''])
        \<lparr>observations := Some [(''e'', [1, 2, 11]), (''pt'', [3, 4])],
         weights := Some \<lparr>slices = [[10, 20, 70]], shape1 = 3\<rparr>\<rparr>)"
  by code_simp

text \<open>
  Claim C3. Let the samples before some file have been merged without error and let the
  extraction of that file succeed. If the new table has another number of keys than the
  merged one, \<^verbatim>\<open>analyse_lhe_samples\<close> raises a \<^verbatim>\<open>ValueError\<close>: the one of line 101 with
  the two key counts, or the one of line 97 when the weight counts differ as well. If a key
  of the merged table is missing from the new table, the call raises too (one of the two
  \<^verbatim>\<open>ValueError\<close>s or the failed assertion of line 108 for such a key): no column is
  filled in for the missing key.
\<close>

theorem key_mismatch_is_fatal:
  assumes "lhe_sample_filenames self = before @ lhe_file # after"
    and "analyse_loop extract before self = (Inr (), merged)"
    and "observations merged = Some obs" and "weights merged = Some w"
    and "extract lhe_file (observables self) (observables_required self) =
           Inr (this_observations, this_weights)"
  shows "(length obs \<noteq> length this_observations \<longrightarrow>
            fst (analyse_lhe_samples extract self) =
              Inl (Raised (if shape0 w \<noteq> shape0 this_weights
                           then ValueError_weights (shape0 w) (shape0 this_weights)
                           else ValueError_observations (length obs) (length this_observations))))
       \<and> ((\<exists>k\<in>fst ` set obs. k \<notin> fst ` set this_observations) \<longrightarrow>
            (\<exists>e. fst (analyse_lhe_samples extract self) = Inl (Raised e)
               \<and> (e = ValueError_weights (shape0 w) (shape0 this_weights)
                  \<or> e = ValueError_observations (length obs) (length this_observations)
                  \<or> (\<exists>k. e = AssertionError k \<and> k \<in> fst ` set obs
                            \<and> k \<notin> fst ` set this_observations))))"
proof -
  have run: "analyse_lhe_samples extract self =
      (case merge_sample this_observations this_weights merged of
         (Inl e, self') \<Rightarrow> (Inl (Raised e), self')
       | (Inr u, self') \<Rightarrow> analyse_loop extract after self')"
    by (simp add: analyse_lhe_samples_def assms(1,5) analyse_loop_at [OF assms(2)])
  consider (w) "shape0 w \<noteq> shape0 this_weights"
    | (n) "shape0 w = shape0 this_weights" "length obs \<noteq> length this_observations"
    | (k) "shape0 w = shape0 this_weights" "length obs = length this_observations"
    by blast
  then show ?thesis
  proof cases
    case w
    then show ?thesis
      using merge_sample_weights_mismatch [OF assms(4) w, of this_observations] run by simp
  next
    case n
    then show ?thesis
      using merge_sample_keys_mismatch [OF assms(3,4) n] run by simp
  next
    case k
    show ?thesis
    proof (cases "\<exists>k\<in>fst ` set obs. k \<notin> fst ` set this_observations")
      case True
      from merge_sample_missing_key [OF assms(3,4) k True]
      obtain key self' where "merge_sample this_observations this_weights merged =
          (Inl (AssertionError key), self')" "key \<in> fst ` set obs" "key \<notin> fst ` set this_observations"
        by blast
      with run k show ?thesis by auto
    next
      case False
      with k show ?thesis by simp
    qed
  qed
qed

theorem key_mismatch_is_fatal_witness:
  "fst (analyse_lhe_samples example_extractor (example_processor [''a.lhe'', ''one_key.lhe''])) =
     Inl (Raised (ValueError_observations 2 1))"
proof -
  let ?self = "example_processor [''a.lhe'', ''one_key.lhe'']"
  let ?obs = "[(''e'', [1, 2]), (''pt'', [3, 4])] :: int observations"
  let ?w = "\<lparr>slices = [[10, 20]], shape1 = 2\<rparr> :: int ndarray2"
  let ?merged = "?self\<lparr>observations := Some ?obs, weights := Some ?w\<rparr>"
  let ?to = "[(''e'', [9])] :: int observations"
  let ?tw = "\<lparr>slices = [[60]], shape1 = 1\<rparr> :: int ndarray2"
  have 1: "lhe_sample_filenames ?self = [''a.lhe''] @ ''one_key.lhe'' # []" by code_simp
  have 2: "analyse_loop example_extractor [''a.lhe''] ?self = (Inr (), ?merged)" by code_simp
  have 3: "observations ?merged = Some ?obs" by simp
  have 4: "weights ?merged = Some ?w" by simp
  have 5: "example_extractor ''one_key.lhe'' (observables ?self) (observables_required ?self) =
     Inr (?to, ?tw)" by code_simp
  have 6: "length ?obs \<noteq> length ?to" by simp
  have 7: "\<exists>k\<in>fst ` set ?obs. k \<notin> fst ` set ?to" by simp
  show ?thesis using key_mismatch_is_fatal [OF 1 2 3 4 5] 6 7 by (simp add: shape0_def)
qed

text \<open>
  Claim C4, as the code has it. With no registered file name \<^verbatim>\<open>analyse_lhe_samples\<close>
  returns without an exception and leaves the processor as it was.
\<close>

theorem no_samples_changes_nothing:
  "lhe_sample_filenames self = [] \<Longrightarrow> analyse_lhe_samples extract self = (Inr (), self)"
  by (simp add: analyse_lhe_samples_def)

theorem no_samples_changes_nothing_witness:
  "lhe_sample_filenames (example_processor []) = []
   \<and> analyse_lhe_samples example_extractor (example_processor []) = (Inr (), example_processor [])"
proof -
  have 1: "lhe_sample_filenames (example_processor []) = []" by code_simp
  show ?thesis using 1 no_samples_changes_nothing [OF 1, of example_extractor] by simp
qed

text \<open>
  Claim C4 as stated fails: on a new processor with two registered observables and no
  sample, the observations and the weights are still \<^verbatim>\<open>None\<close> after the call; no table
  with the two names as keys exists.
\<close>

theorem no_samples_empty_dataset_counterexample:
  "observables (example_processor []) = [(''e'', ''p[0].e''), (''pt'', ''p[1].pt'')]
   \<and> observations (snd (analyse_lhe_samples example_extractor (example_processor []))) = None
   \<and> weights (snd (analyse_lhe_samples example_extractor (example_processor []))) = None"
  by code_simp

section \<open>The shape invariant\<close>

lemma keys_append_columns: "map fst (append_columns cur this) = map fst cur"
  by (simp add: append_columns_def case_prod_unfold comp_def)

lemma is_dict_append_columns: "is_dict cur \<Longrightarrow> is_dict (append_columns cur this)"
  by (simp add: is_dict_def keys_append_columns)

lemma merge_sample_first:
  "observations self = None \<Longrightarrow> weights self = None \<Longrightarrow>
   merge_sample this_observations this_weights self =
     (Inr (), self\<lparr>observations := Some this_observations, weights := Some this_weights\<rparr>)"
  by (simp add: merge_sample_def)

lemma merge_sample_next:
  assumes "observations self = Some obs" "weights self = Some w" "is_dict obs"
    and "merge_sample this_observations this_weights self = (Inr (), self')"
  shows "self' = self\<lparr>weights := Some (hstack2 w this_weights),
                       observations := Some (append_columns obs this_observations)\<rparr>"
    and "shape0 this_weights = shape0 w"
    and "length this_observations = length obs"
    and "\<forall>k\<in>fst ` set obs. map_of this_observations k \<noteq> None"
proof -
  from assms(1,2,4) have s: "shape0 this_weights = shape0 w"
    and l: "length this_observations = length obs"
    by (auto simp: merge_sample_def split: if_splits)
  with assms(1,2,4) obtain obs' where
    m: "merge_observations (map fst obs) this_observations obs = (Inr (), obs')"
    and s': "self' = self\<lparr>weights := Some (hstack2 w this_weights), observations := Some obs'\<rparr>"
    by (auto simp: merge_sample_def split: prod.splits)
  from merge_observations_success_present [OF m]
  have p: "\<forall>k\<in>fst ` set obs. map_of this_observations k \<noteq> None" by simp
  from merge_observations_ok [OF assms(3) p] m have "obs' = append_columns obs this_observations"
    by simp
  with s' s l p show
    "self' = self\<lparr>weights := Some (hstack2 w this_weights),
                   observations := Some (append_columns obs this_observations)\<rparr>"
    "shape0 this_weights = shape0 w" "length this_observations = length obs"
    "\<forall>k\<in>fst ` set obs. map_of this_observations k \<noteq> None"
    by simp_all
qed

lemma wf_array_hstack2: "wf_array a \<Longrightarrow> wf_array b \<Longrightarrow> wf_array (hstack2 a b)"
  by (fastforce simp: wf_array_def hstack2_def list_all_iff dest: set_zip_leftD set_zip_rightD)

lemma column_length:
  "list_all (\<lambda>(k, col). length col = n) this \<Longrightarrow> map_of this k \<noteq> None \<Longrightarrow>
   length (column this k) = n"
  by (auto simp: column_def list_all_iff split: option.splits dest: map_of_SomeD)

lemma shape_invariant_merge:
  assumes "shape_invariant obs w" "shape_invariant this_observations this_weights"
    and "\<forall>k\<in>fst ` set obs. map_of this_observations k \<noteq> None"
  shows "shape_invariant (append_columns obs this_observations) (hstack2 w this_weights)"
proof -
  have "wf_array (hstack2 w this_weights)"
    using assms(1,2) by (simp add: shape_invariant_def wf_array_hstack2)
  moreover have "list_all (\<lambda>(k, col). length col = shape1 (hstack2 w this_weights))
                   (append_columns obs this_observations)"
    unfolding list_all_iff append_columns_def
  proof
    fix p assume "p \<in> set (map (\<lambda>(k, c). (k, c @ column this_observations k)) obs)"
    then obtain k c where kc: "(k, c) \<in> set obs" and p: "p = (k, c @ column this_observations k)"
      by auto
    from kc assms(1) have "length c = shape1 w" by (auto simp: shape_invariant_def list_all_iff)
    moreover from kc assms(2,3) have "length (column this_observations k) = shape1 this_weights"
      by (intro column_length) (auto simp: shape_invariant_def image_iff)
    ultimately show "case p of (k, col) \<Rightarrow> length col = shape1 (hstack2 w this_weights)"
      using p by (simp add: hstack2_def)
  qed
  ultimately show ?thesis by (simp add: shape_invariant_def)
qed

lemma merge_sample_dataset_invariant:
  assumes "dataset_invariant self" "is_dict this_observations"
    "shape_invariant this_observations this_weights"
    "merge_sample this_observations this_weights self = (Inr (), self')"
  shows "dataset_invariant self' \<and> observations self' \<noteq> None \<and> weights self' \<noteq> None"
proof (cases "observations self")
  case None
  with assms(1) have w: "weights self = None"
    by (auto simp: dataset_invariant_def split: option.splits)
  from merge_sample_first [OF None w, of this_observations this_weights] assms(2,3,4)
  show ?thesis by (auto simp: dataset_invariant_def)
next
  case (Some obs)
  with assms(1) obtain w where w: "weights self = Some w" and d: "is_dict obs"
    and i: "shape_invariant obs w"
    by (auto simp: dataset_invariant_def split: option.splits)
  from merge_sample_next [OF Some w d assms(4)] shape_invariant_merge [OF i assms(3)] d
  show ?thesis by (simp add: dataset_invariant_def is_dict_append_columns)
qed

lemma analyse_loop_dataset_invariant:
  assumes "analyse_loop extract files self = (Inr (), self')"
    and "dataset_invariant self"
    and "\<forall>f\<in>set files. \<forall>this_observations this_weights.
           extract f (observables self) (observables_required self) =
             Inr (this_observations, this_weights) \<longrightarrow>
           is_dict this_observations \<and> shape_invariant this_observations this_weights"
  shows "dataset_invariant self' \<and>
         (files \<noteq> [] \<longrightarrow> observations self' \<noteq> None \<and> weights self' \<noteq> None)"
  using assms
proof (induction files arbitrary: self)
  case Nil
  then show ?case by simp
next
  case (Cons f files)
  from Cons.prems(1) obtain o' w' where
    e: "extract f (observables self) (observables_required self) = Inr (o', w')"
    by (auto split: sum.splits)
  with Cons.prems(1) obtain self1 where m: "merge_sample o' w' self = (Inr (), self1)"
    and rest: "analyse_loop extract files self1 = (Inr (), self')"
    by (auto split: sum.splits prod.splits)
  from e Cons.prems(3) have ok: "is_dict o'" "shape_invariant o' w'" by auto
  from merge_sample_dataset_invariant [OF Cons.prems(2) ok m]
  have i1: "dataset_invariant self1" and s1: "observations self1 \<noteq> None" "weights self1 \<noteq> None"
    by simp_all
  have reg: "observables self1 = observables self"
            "observables_required self1 = observables_required self"
    using merge_sample_registration [of o' w' self] m by (simp_all add: registration_def)
  have "dataset_invariant self' \<and>
         (files \<noteq> [] \<longrightarrow> observations self' \<noteq> None \<and> weights self' \<noteq> None)"
    using Cons.IH [OF rest i1] Cons.prems(3) reg by simp
  moreover have "files = [] \<Longrightarrow> self' = self1" using rest by simp
  ultimately show ?case using s1 by (cases files) auto
qed

text \<open>
  Claim C5. Let the processor satisfy the shape invariant before the call (a new processor
  does), let every sample the extraction routine returns for a registered file be a
  dictionary that satisfies it, and let \<^verbatim>\<open>analyse_lhe_samples\<close> return without an
  exception. Then the processor satisfies the invariant afterwards: every merged column has
  as many entries as the merged weights have events. With at least one registered file the
  merged observations and weights exist.
\<close>

theorem shape_invariant_preserved:
  assumes "analyse_lhe_samples extract self = (Inr (), self')"
    and "dataset_invariant self"
    and "\<forall>f\<in>set (lhe_sample_filenames self). \<forall>this_observations this_weights.
           extract f (observables self) (observables_required self) =
             Inr (this_observations, this_weights) \<longrightarrow>
           is_dict this_observations \<and> shape_invariant this_observations this_weights"
  shows "dataset_invariant self' \<and>
         (lhe_sample_filenames self \<noteq> [] \<longrightarrow> observations self' \<noteq> None \<and> weights self' \<noteq> None)"
  using analyse_loop_dataset_invariant [of "extract" "lhe_sample_filenames self" self self'] assms
  by (simp add: analyse_lhe_samples_def)

theorem shape_invariant_preserved_witness:
  "dataset_invariant
     ((example_processor [''a.lhe'', ''b.lhe''])
        \<lparr>observations := Some [(''e'', [1, 2, 5]), (''pt'', [3, 4, 6])],
         weights := Some \<lparr>slices = [[10, 20, 30]], shape1 = 3\<rparr>\<rparr>)"
proof -
  let ?self = "example_processor [''a.lhe'', ''b.lhe'']"
  let ?self' = "?self\<lparr>observations := Some [(''e'', [1, 2, 5]), (''pt'', [3, 4, 6])],
         weights := Some \<lparr>slices = [[10, 20, 30]], shape1 = 3\<rparr>\<rparr>"
  have 1: "analyse_lhe_samples example_extractor ?self = (Inr (), ?self')" by code_simp
  have 2: "dataset_invariant ?self" by code_simp
  have files: "lhe_sample_filenames ?self = [''a.lhe'', ''b.lhe'']" by code_simp
  have a: "example_extractor ''a.lhe'' (observables ?self) (observables_required ?self) =
      Inr ([(''e'', [1, 2]), (''pt'', [3, 4])], \<lparr>slices = [[10, 20]], shape1 = 2\<rparr>)" by code_simp
  have b: "example_extractor ''b.lhe'' (observables ?self) (observables_required ?self) =
      Inr ([(''pt'', [6]), (''e'', [5])], \<lparr>slices = [[30]], shape1 = 1\<rparr>)" by code_simp
  have 3: "\<forall>f\<in>set (lhe_sample_filenames ?self). \<forall>this_observations this_weights.
           example_extractor f (observables ?self) (observables_required ?self) =
             Inr (this_observations, this_weights) \<longrightarrow>
           is_dict this_observations \<and> shape_invariant this_observations this_weights"
    unfolding files using a b by (auto simp: is_dict_def shape_invariant_def wf_array_def)
  show ?thesis using shape_invariant_preserved [OF 1 2 3] by simp
qed

section \<open>The merged rows\<close>

lemma in_order_cong:
  assumes "observables self1 = observables self"
    and "observables_required self1 = observables_required self"
  shows "columns_in_order extract self1 = columns_in_order extract self"
    and "weights_in_order extract self1 = weights_in_order extract self"
    and "events_in_order extract self1 = events_in_order extract self"
  using assms
  by (simp_all add: fun_eq_iff columns_in_order_def weights_in_order_def events_in_order_def
        sample_observations_def sample_weights_def)

lemma shape0_hstack2: "shape0 b = shape0 a \<Longrightarrow> shape0 (hstack2 a b) = shape0 a"
  by (simp add: shape0_def hstack2_def)

lemma slices_hstack2:
  "shape0 b = shape0 a \<Longrightarrow> i < shape0 a \<Longrightarrow>
   slices (hstack2 a b) ! i = slices a ! i @ slices b ! i"
  by (simp add: shape0_def hstack2_def)

lemma analyse_loop_appends:
  assumes "observations self = Some obs" "weights self = Some w" "is_dict obs"
    and "analyse_loop extract files self = (Inr (), self')"
  shows "observations self' =
           Some (map (\<lambda>(k, c). (k, c @ columns_in_order extract self files k)) obs)
       \<and> (\<exists>w'. weights self' = Some w' \<and> shape0 w' = shape0 w
             \<and> shape1 w' = shape1 w + events_in_order extract self files
             \<and> (\<forall>i<shape0 w. slices w' ! i = slices w ! i @ weights_in_order extract self files i))
       \<and> (\<forall>f\<in>set files. shape0 (sample_weights extract self f) = shape0 w)"
  using assms
proof (induction files arbitrary: self obs w)
  case Nil
  then show ?case
    by (simp add: columns_in_order_def weights_in_order_def events_in_order_def
          case_prod_unfold)
next
  case (Cons f files)
  from Cons.prems(4) obtain o' w' where
    e: "extract f (observables self) (observables_required self) = Inr (o', w')"
    by (auto split: sum.splits)
  with Cons.prems(4) obtain self1 where m: "merge_sample o' w' self = (Inr (), self1)"
    and rest: "analyse_loop extract files self1 = (Inr (), self')"
    by (auto split: sum.splits prod.splits)
  note n = merge_sample_next [OF Cons.prems(1,2,3) m]
  have o1: "observations self1 = Some (append_columns obs o')"
    and w1: "weights self1 = Some (hstack2 w w')"
    and reg: "observables self1 = observables self"
             "observables_required self1 = observables_required self"
    using n(1) by simp_all
  have d1: "is_dict (append_columns obs o')" using Cons.prems(3) by (rule is_dict_append_columns)
  have swc: "sample_weights extract self1 = sample_weights extract self"
    using reg by (simp add: fun_eq_iff sample_weights_def)
  note ih = Cons.IH [OF o1 w1 d1 rest, unfolded in_order_cong [OF reg] swc]
  have so: "sample_observations extract self f = o'" and sw: "sample_weights extract self f = w'"
    using e by (simp_all add: sample_observations_def sample_weights_def)
  have "map (\<lambda>(k, c). (k, c @ columns_in_order extract self files k)) (append_columns obs o') =
        map (\<lambda>(k, c). (k, c @ columns_in_order extract self (f # files) k)) obs"
    by (simp add: append_columns_def columns_in_order_def so case_prod_unfold comp_def)
  with ih have obs': "observations self' =
      Some (map (\<lambda>(k, c). (k, c @ columns_in_order extract self (f # files) k)) obs)"
    by simp
  from ih obtain w'' where w'': "weights self' = Some w''"
    "shape0 w'' = shape0 (hstack2 w w')"
    "shape1 w'' = shape1 (hstack2 w w') + events_in_order extract self files"
    "\<forall>i<shape0 (hstack2 w w'). slices w'' ! i = slices (hstack2 w w') ! i @ weights_in_order extract self files i"
    by blast
  have s0: "shape0 (hstack2 w w') = shape0 w" using n(2) by (rule shape0_hstack2)
  have "shape1 w'' = shape1 w + events_in_order extract self (f # files)"
    using w''(3) by (simp add: hstack2_def events_in_order_def sw)
  moreover have "\<forall>i<shape0 w. slices w'' ! i = slices w ! i @ weights_in_order extract self (f # files) i"
    using w''(4) s0 slices_hstack2 [OF n(2)] by (simp add: weights_in_order_def sw)
  moreover have "\<forall>g\<in>set (f # files). shape0 (sample_weights extract self g) = shape0 w"
    using ih s0 sw n(2) by simp
  ultimately show ?case using obs' w''(1,2) s0 by simp
qed


lemma dict_column: "is_dict d \<Longrightarrow> (k, c) \<in> set d \<Longrightarrow> column d k = c"
  by (simp add: column_def is_dict_def)

lemma analyse_loop_fresh:
  assumes "observations self = None" "weights self = None"
    and "analyse_loop extract (first # others) self = (Inr (), self')"
    and "is_dict (sample_observations extract self first)"
  shows "observations self' =
           Some (map (\<lambda>(k, c). (k, columns_in_order extract self (first # others) k))
                   (sample_observations extract self first))
       \<and> (\<exists>w. weights self' = Some w
             \<and> shape0 w = shape0 (sample_weights extract self first)
             \<and> shape1 w = events_in_order extract self (first # others)
             \<and> (\<forall>i<shape0 w. slices w ! i = weights_in_order extract self (first # others) i)
             \<and> (\<forall>f\<in>set (first # others). shape0 (sample_weights extract self f) = shape0 w))"
proof -
  from assms(3) obtain o' w' where
    e: "extract first (observables self) (observables_required self) = Inr (o', w')"
    by (auto split: sum.splits)
  with assms(3) obtain self1 where m: "merge_sample o' w' self = (Inr (), self1)"
    and rest: "analyse_loop extract others self1 = (Inr (), self')"
    by (auto split: sum.splits prod.splits)
  have so: "sample_observations extract self first = o'"
    and sw: "sample_weights extract self first = w'"
    using e by (simp_all add: sample_observations_def sample_weights_def)
  from merge_sample_first [OF assms(1,2), of o' w'] m
  have o1: "observations self1 = Some o'" and w1: "weights self1 = Some w'"
    and reg: "observables self1 = observables self"
             "observables_required self1 = observables_required self"
    by auto
  have d: "is_dict o'" using assms(4) so by simp
  have swc: "sample_weights extract self1 = sample_weights extract self"
    using reg by (simp add: fun_eq_iff sample_weights_def)
  note a = analyse_loop_appends [OF o1 w1 d rest, unfolded in_order_cong [OF reg] swc]
  have "map (\<lambda>(k, c). (k, c @ columns_in_order extract self others k)) o' =
        map (\<lambda>(k, c). (k, columns_in_order extract self (first # others) k)) o'"
    using d by (intro map_cong) (auto simp: columns_in_order_def so dict_column)
  with a have obs: "observations self' =
      Some (map (\<lambda>(k, c). (k, columns_in_order extract self (first # others) k)) o')"
    by simp
  from a obtain w where "weights self' = Some w" "shape0 w = shape0 w'"
    "shape1 w = shape1 w' + events_in_order extract self others"
    "\<forall>i<shape0 w'. slices w ! i = slices w' ! i @ weights_in_order extract self others i"
    "\<forall>f\<in>set others. shape0 (sample_weights extract self f) = shape0 w'"
    by blast
  then have "weights self' = Some w \<and> shape0 w = shape0 w'
      \<and> shape1 w = events_in_order extract self (first # others)
      \<and> (\<forall>i<shape0 w. slices w ! i = weights_in_order extract self (first # others) i)
      \<and> (\<forall>f\<in>set (first # others). shape0 (sample_weights extract self f) = shape0 w)"
    by (simp add: events_in_order_def weights_in_order_def sw)
  then have "\<exists>w. weights self' = Some w \<and> shape0 w = shape0 w'
      \<and> shape1 w = events_in_order extract self (first # others)
      \<and> (\<forall>i<shape0 w. slices w ! i = weights_in_order extract self (first # others) i)
      \<and> (\<forall>f\<in>set (first # others). shape0 (sample_weights extract self f) = shape0 w)"
    by (rule exI)
  with obs show ?thesis unfolding so sw by (rule conjI)
qed





text \<open>The other order of the two files gives the other layout.\<close>

lemma merge_order_example:
  "snd (analyse_lhe_samples example_extractor (example_processor [''b.lhe'', ''a.lhe''])) =
     (example_processor [''b.lhe'', ''a.lhe''])
        \<lparr>observations := Some [(''pt'', [6, 3, 4]), (''e'', [5, 1, 2])],
         weights := Some \<lparr>slices = [[30, 10, 20]], shape1 = 3\<rparr>\<rparr>"
  by code_simp


text \<open>
  Claim C9. After a first call of \<^verbatim>\<open>analyse_lhe_samples\<close> on a processor without results
  and a second call on the processor it leaves, both returning without an exception, every
  column is the column after the first call followed by itself, and so is every slice of
  the weights: the second call has extracted every file again and appended it.
\<close>

theorem second_analysis_appends_again:
  assumes "observations self = None" "weights self = None"
    and "lhe_sample_filenames self = first # others"
    and "is_dict (sample_observations extract self first)"
    and "analyse_lhe_samples extract self = (Inr (), self1)"
    and "analyse_lhe_samples extract self1 = (Inr (), self2)"
  shows "\<exists>obs1 w1. observations self1 = Some obs1 \<and> weights self1 = Some w1
           \<and> observations self2 = Some (map (\<lambda>(k, c). (k, c @ c)) obs1)
           \<and> weights self2 = Some \<lparr>slices = map (\<lambda>r. r @ r) (slices w1),
                                     shape1 = shape1 w1 + shape1 w1\<rparr>"
proof -
  let ?files = "first # others"
  let ?so = "sample_observations extract self first"
  let ?obs1 = "map (\<lambda>(k, c). (k, columns_in_order extract self ?files k)) ?so"
  from assms(3,5) have run1: "analyse_loop extract ?files self = (Inr (), self1)"
    by (simp add: analyse_lhe_samples_def)
  note reg = analyse_loop_observables [OF run1]
  from assms(3,6) reg(3) have run2: "analyse_loop extract ?files self1 = (Inr (), self2)"
    by (simp add: analyse_lhe_samples_def)
  from analyse_loop_fresh [OF assms(1,2) run1 assms(4)] obtain w1 where
    o1: "observations self1 = Some ?obs1" and w1: "weights self1 = Some w1"
    and s1: "shape1 w1 = events_in_order extract self ?files"
    and r1: "\<forall>i<shape0 w1. slices w1 ! i = weights_in_order extract self ?files i"
    by blast
  have d1: "is_dict ?obs1" using assms(4) by (simp add: is_dict_def case_prod_unfold comp_def)
  note a = analyse_loop_appends [OF o1 w1 d1 run2, unfolded in_order_cong [OF reg(1,2)]]
  have "map (\<lambda>(k, c). (k, c @ columns_in_order extract self ?files k)) ?obs1 =
        map (\<lambda>(k, c). (k, c @ c)) ?obs1"
    by (intro map_cong) auto
  with a have o2: "observations self2 = Some (map (\<lambda>(k, c). (k, c @ c)) ?obs1)" by simp
  from a obtain w2 where w2: "weights self2 = Some w2" and s02: "shape0 w2 = shape0 w1"
    and s2: "shape1 w2 = shape1 w1 + events_in_order extract self ?files"
    and r2: "\<forall>i<shape0 w1. slices w2 ! i = slices w1 ! i @ weights_in_order extract self ?files i"
    by blast
  have "slices w2 = map (\<lambda>r. r @ r) (slices w1)"
  proof (rule nth_equalityI)
    show "length (slices w2) = length (map (\<lambda>r. r @ r) (slices w1))"
      using s02 by (simp add: shape0_def)
  next
    fix i assume "i < length (slices w2)"
    with s02 have i: "i < shape0 w1" by (simp add: shape0_def)
    with r1 r2 have "slices w2 ! i = slices w1 ! i @ slices w1 ! i" by simp
    with i show "slices w2 ! i = map (\<lambda>r. r @ r) (slices w1) ! i" by (simp add: shape0_def)
  qed
  with s1 s2 have "w2 = \<lparr>slices = map (\<lambda>r. r @ r) (slices w1), shape1 = shape1 w1 + shape1 w1\<rparr>"
    by simp
  with o1 w1 o2 w2 show ?thesis by blast
qed

theorem second_analysis_appends_again_witness:
  "\<exists>obs1 w1.
      observations ((example_processor [''a.lhe'', ''b.lhe''])
          \<lparr>observations := Some [(''e'', [1, 2, 5]), (''pt'', [3, 4, 6])],
           weights := Some \<lparr>slices = [[10, 20, 30]], shape1 = 3\<rparr>\<rparr>) = Some obs1
    \<and> weights ((example_processor [''a.lhe'', ''b.lhe''])
          \<lparr>observations := Some [(''e'', [1, 2, 5]), (''pt'', [3, 4, 6])],
           weights := Some \<lparr>slices = [[10, 20, 30]], shape1 = 3\<rparr>\<rparr>) = Some w1
    \<and> observations ((example_processor [''a.lhe'', ''b.lhe''])
          \<lparr>observations := Some [(''e'', [1, 2, 5, 1, 2, 5]), (''pt'', [3, 4, 6, 3, 4, 6])],
           weights := Some \<lparr>slices = [[10, 20, 30, 10, 20, 30]], shape1 = 6\<rparr>\<rparr>)
        = Some (map (\<lambda>(k, c). (k, c @ c)) obs1)
    \<and> weights ((example_processor [''a.lhe'', ''b.lhe''])
          \<lparr>observations := Some [(''e'', [1, 2, 5, 1, 2, 5]), (''pt'', [3, 4, 6, 3, 4, 6])],
           weights := Some \<lparr>slices = [[10, 20, 30, 10, 20, 30]], shape1 = 6\<rparr>\<rparr>)
        = Some \<lparr>slices = map (\<lambda>r. r @ r) (slices w1), shape1 = shape1 w1 + shape1 w1\<rparr>"
proof -
  let ?self = "example_processor [''a.lhe'', ''b.lhe'']"
  let ?self1 = "?self\<lparr>observations := Some [(''e'', [1, 2, 5]), (''pt'', [3, 4, 6])],
           weights := Some \<lparr>slices = [[10, 20, 30]], shape1 = 3\<rparr>\<rparr>"
  let ?self2 = "?self\<lparr>observations := Some [(''e'', [1, 2, 5, 1, 2, 5]), (''pt'', [3, 4, 6, 3, 4, 6])],
           weights := Some \<lparr>slices = [[10, 20, 30, 10, 20, 30]], shape1 = 6\<rparr>\<rparr>"
  have 1: "observations ?self = None" by code_simp
  have 2: "weights ?self = None" by code_simp
  have 3: "lhe_sample_filenames ?self = ''a.lhe'' # [''b.lhe'']" by code_simp
  have 4: "is_dict (sample_observations example_extractor ?self ''a.lhe'')" by code_simp
  have 5: "analyse_lhe_samples example_extractor ?self = (Inr (), ?self1)" by code_simp
  have 6: "analyse_lhe_samples example_extractor ?self1 = (Inr (), ?self2)" by code_simp
  show ?thesis using second_analysis_appends_again [OF 1 2 3 4 5 6] .
qed

end
